theory Spec2Isabelle
  imports Main "HOL-Library.Char_ord" "HOL-Library.List_Lexorder"
begin

section \<open>JavaScript values\<close>

text \<open>
  The values that flow through \<^verbatim>\<open>DataManager\<close>: parsed JSON bodies, request parameters
  and the fields of the items that are searched. Numbers are the integer-valued ones
  (identifiers, page offsets, counters); fractional numbers and \<^verbatim>\<open>NaN\<close> are not
  represented. A string is a list of code units below 256, so the order on strings is
  the code-unit order that \<^verbatim>\<open>Array.prototype.sort\<close> uses by default. An object is
  the list of its own enumerable properties in enumeration order, without duplicates.
\<close>

datatype js_value =
    JUndefined
  | JNull
  | JBool bool
  | JNum int
  | JStr string
  | JArr "js_value list"
  | JObj "(string \<times> js_value) list"

type_synonym js_object = "(string \<times> js_value) list"

text \<open>\<^verbatim>\<open>Array.prototype.join\<close> on strings.\<close>

fun join :: "string \<Rightarrow> string list \<Rightarrow> string" where
  "join sep [] = []"
| "join sep [x] = x"
| "join sep (x # y # ys) = x @ sep @ join sep (y # ys)"

text \<open>Decimal rendering of an integer-valued number.\<close>

fun nat_digits :: "nat \<Rightarrow> string" where
  "nat_digits n =
     (if n < 10 then [''0123456789'' ! n]
      else nat_digits (n div 10) @ [''0123456789'' ! (n mod 10)])"

declare nat_digits.simps [simp del]

definition number_toString :: "int \<Rightarrow> string" where
  "number_toString i = (if i < 0 then ''-'' @ nat_digits (nat (- i)) else nat_digits (nat i))"

fun nullish :: "js_value \<Rightarrow> bool" where
  "nullish JUndefined = True"
| "nullish JNull = True"
| "nullish _ = False"

text \<open>
  Coercion to text, as a template literal and \<^verbatim>\<open>value.toString()\<close> perform it on
  JSON values. An array joins its elements with a comma, \<^verbatim>\<open>null\<close> and
  \<^verbatim>\<open>undefined\<close> elements giving the empty string.
\<close>

fun toString :: "js_value \<Rightarrow> string" where
  "toString JUndefined = ''undefined''"
| "toString JNull = ''null''"
| "toString (JBool b) = (if b then ''true'' else ''false'')"
| "toString (JNum n) = number_toString n"
| "toString (JStr s) = s"
| "toString (JArr xs) = join '','' (map (\<lambda>x. if nullish x then [] else toString x) xs)"
| "toString (JObj ps) = ''[object Object]''"

text \<open>Truthiness, as \<^verbatim>\<open>if (v)\<close> and \<^verbatim>\<open>v && e\<close> test it.\<close>

fun truthy :: "js_value \<Rightarrow> bool" where
  "truthy JUndefined = False"
| "truthy JNull = False"
| "truthy (JBool b) = b"
| "truthy (JNum n) = (n \<noteq> 0)"
| "truthy (JStr s) = (s \<noteq> [])"
| "truthy (JArr xs) = True"
| "truthy (JObj ps) = True"

definition object_keys :: "js_object \<Rightarrow> string list" where
  "object_keys obj = map fst obj"

text \<open>Property read \<^verbatim>\<open>obj[k]\<close>: \<^verbatim>\<open>undefined\<close> when the object has no such property.\<close>

definition get_prop :: "js_object \<Rightarrow> string \<Rightarrow> js_value" where
  "get_prop obj k = (case map_of obj k of None \<Rightarrow> JUndefined | Some v \<Rightarrow> v)"

section \<open>String operations\<close>

text \<open>White space that \<^verbatim>\<open>String.prototype.trim\<close> removes, among the code units below 256.\<close>

definition is_white_space :: "char \<Rightarrow> bool" where
  "is_white_space c = (of_char c \<in> {9, 10, 11, 12, 13, 32, 160 :: nat})"

definition trim :: "string \<Rightarrow> string" where
  "trim s = rev (dropWhile is_white_space (rev (dropWhile is_white_space s)))"

definition char_toLowerCase :: "char \<Rightarrow> char" where
  "char_toLowerCase c =
     (let n = (of_char c :: nat)
      in if (65 \<le> n \<and> n \<le> 90) \<or> (192 \<le> n \<and> n \<le> 222 \<and> n \<noteq> 215)
         then char_of (n + 32) else c)"

definition toLowerCase :: "string \<Rightarrow> string" where
  "toLowerCase s = map char_toLowerCase s"

text \<open>\<^verbatim>\<open>s.includes(sub)\<close>: \<open>sub\<close> occurs in \<open>s\<close> at some position.\<close>

fun string_includes :: "string \<Rightarrow> string \<Rightarrow> bool" where
  "string_includes [] sub = (sub = [])"
| "string_includes (c # cs) sub =
     (take (length sub) (c # cs) = sub \<or> string_includes cs sub)"

section \<open>Errors, the network, effects\<close>

text \<open>An error object, with the two properties the code reads or writes.\<close>

datatype js_error = JsError (error_name: string) (error_message: string)

text \<open>
  The outcome of one \<^verbatim>\<open>fetch(url, options)\<close>: the promise rejects, or it resolves to a
  response with \<^verbatim>\<open>ok\<close>, \<^verbatim>\<open>status\<close>, \<^verbatim>\<open>statusText\<close> and the outcome of
  \<^verbatim>\<open>response.json()\<close>.
\<close>

datatype fetch_outcome =
    Rejected js_error
  | Response bool int string "js_error + js_value"

datatype reply = Reply (elapsed: nat) (outcome: fetch_outcome)

text \<open>
  A URL object: the string it was built from and the pairs appended to its
  \<^verbatim>\<open>searchParams\<close>, in order. The string is taken to be one that the \<^verbatim>\<open>URL\<close>
  constructor accepts, and the serialisation of the object is not modelled.
\<close>

datatype url = URL string "(string \<times> string) list"

record fetch_options =
  signal :: "nat option"

datatype effect =
    Notify string "js_error option"
  | Fetch url fetch_options
  | Delay int
  | Abort nat
  | NewController nat
  | ConsoleError js_error

section \<open>The manager and its environment\<close>

record manager_config =
  maxRetries :: int
  retryDelay :: int
  cacheExpiry :: int
  debounceDelay :: int

text \<open>A cache entry \<^verbatim>\<open>{ data, timestamp }\<close>.\<close>

record cache_entry =
  entry_data :: js_value
  entry_timestamp :: int

text \<open>
  The fields of a \<^verbatim>\<open>DataManager\<close> instance, followed by the environment one call runs
  in. The cache is a JavaScript \<^verbatim>\<open>Map\<close>: its entries in insertion order. An
  \<^verbatim>\<open>AbortController\<close> is an address into \<open>controllers\<close>, which holds the
  \<^verbatim>\<open>aborted\<close> flag of every controller created so far. \<open>clock\<close> is what
  \<^verbatim>\<open>Date.now()\<close> returns; \<open>net\<close> gives the reply to the \<open>i\<close>-th network call, and
  \<open>netCalls\<close> counts the calls made. \<open>trace\<close> records, in order, every call of
  \<^verbatim>\<open>notifyListeners\<close> and every other effect. Registered listeners are not modelled
  beyond this record of notifications, the debounce timer is left out, and one call runs
  to completion without another call of the same instance interleaved: what other calls
  and the platform do to a request in flight reaches the call through the replies of
  \<open>net\<close>.
\<close>

record state =
  baseUrl :: string
  cache :: "(string \<times> cache_entry) list"
  requestCount :: int
  abortController :: "nat option"
  config :: manager_config
  clock :: int
  net :: "nat \<Rightarrow> reply"
  netCalls :: nat
  controllers :: "bool list"
  trace :: "effect list"

definition default_config :: manager_config where
  "default_config =
     \<lparr>maxRetries = 3, retryDelay = 1000, cacheExpiry = 5 * 60 * 1000, debounceDelay = 300\<rparr>"

text \<open>The constructor, given the base URL, the time and the network.\<close>

definition new_DataManager :: "string \<Rightarrow> int \<Rightarrow> (nat \<Rightarrow> reply) \<Rightarrow> state" where
  "new_DataManager url now network =
     \<lparr>baseUrl = url, cache = [], requestCount = 0, abortController = None,
      config = default_config,
      clock = now, net = network, netCalls = 0, controllers = [], trace = []\<rparr>"

subsection \<open>The operations of a Map\<close>

definition Map_get :: "('k \<times> 'v) list \<Rightarrow> 'k \<Rightarrow> 'v option" where
  "Map_get m k = map_of m k"

text \<open>\<^verbatim>\<open>Map.prototype.set\<close> keeps the position of a key that is present and appends a new one.\<close>

fun Map_set :: "'k \<Rightarrow> 'v \<Rightarrow> ('k \<times> 'v) list \<Rightarrow> ('k \<times> 'v) list" where
  "Map_set k v [] = [(k, v)]"
| "Map_set k v (p # m) = (if fst p = k then (k, v) # m else p # Map_set k v m)"

definition Map_delete :: "'k \<Rightarrow> ('k \<times> 'v) list \<Rightarrow> ('k \<times> 'v) list" where
  "Map_delete k m = filter (\<lambda>p. fst p \<noteq> k) m"

definition Map_keys :: "('k \<times> 'v) list \<Rightarrow> 'k list" where
  "Map_keys m = map fst m"

subsection \<open>Events, timers, cancellation\<close>

definition notifyListeners :: "state \<Rightarrow> string \<Rightarrow> js_error option \<Rightarrow> state" where
  "notifyListeners s event payload = s\<lparr>trace := trace s @ [Notify event payload]\<rparr>"

definition delay :: "state \<Rightarrow> int \<Rightarrow> state" where
  "delay s ms = s\<lparr>clock := clock s + max 0 ms, trace := trace s @ [Delay ms]\<rparr>"

definition cancelPendingRequests :: "state \<Rightarrow> state" where
  "cancelPendingRequests s =
     (case abortController s of
        None \<Rightarrow> s
      | Some c \<Rightarrow> s\<lparr>controllers := (controllers s)[c := True], trace := trace s @ [Abort c]\<rparr>)"

definition new_AbortController :: "state \<Rightarrow> nat \<times> state" where
  "new_AbortController s =
     (let c = length (controllers s)
      in (c, s\<lparr>controllers := controllers s @ [False], trace := trace s @ [NewController c]\<rparr>))"

definition console_error :: "state \<Rightarrow> js_error \<Rightarrow> state" where
  "console_error s e = s\<lparr>trace := trace s @ [ConsoleError e]\<rparr>"

section \<open>Cache key and cache\<close>

definition generateCacheKey :: "string \<Rightarrow> js_object \<Rightarrow> string" where
  "generateCacheKey endpoint params =
     (let paramStr = join ''&''
            (map (\<lambda>key. key @ ''='' @ toString (get_prop params key))
                 (sort (object_keys params)))
      in endpoint @ (if paramStr \<noteq> [] then ''?'' @ paramStr else []))"

definition isCacheValid :: "state \<Rightarrow> cache_entry \<Rightarrow> bool" where
  "isCacheValid s cacheEntry = (clock s - entry_timestamp cacheEntry < cacheExpiry (config s))"

definition setCache :: "state \<Rightarrow> string \<Rightarrow> js_value \<Rightarrow> state" where
  "setCache s key d =
     notifyListeners
       (s\<lparr>cache := Map_set key \<lparr>entry_data = d, entry_timestamp = clock s\<rparr> (cache s)\<rparr>)
       ''cache-updated'' None"

definition getCache :: "state \<Rightarrow> string \<Rightarrow> js_value \<times> state" where
  "getCache s key =
     (case Map_get (cache s) key of
        Some entry \<Rightarrow>
          if isCacheValid s entry then (entry_data entry, s)
          else (JNull, s\<lparr>cache := Map_delete key (cache s)\<rparr>)
      | None \<Rightarrow> (JNull, s))"

definition clearCache :: "state \<Rightarrow> state" where
  "clearCache s = notifyListeners (s\<lparr>cache := []\<rparr>) ''cache-cleared'' None"

definition getCacheSize :: "state \<Rightarrow> int" where
  "getCacheSize s = int (length (cache s))"

section \<open>Fetching\<close>

text \<open>
  One call of the platform's \<^verbatim>\<open>fetch\<close>: it takes the next reply of the network, which
  also tells how long the call took.
\<close>

definition fetch :: "state \<Rightarrow> url \<Rightarrow> fetch_options \<Rightarrow> fetch_outcome \<times> state" where
  "fetch s u options =
     (let r = net s (netCalls s)
      in (outcome r,
          s\<lparr>clock := clock s + int (elapsed r), netCalls := Suc (netCalls s),
            trace := trace s @ [Fetch u options]\<rparr>))"

text \<open>The \<^verbatim>\<open>try\<close> block of \<^verbatim>\<open>fetchWithRetry\<close>: one attempt, \<open>Inl\<close> what it throws.\<close>

definition fetchWithRetry_try :: "state \<Rightarrow> url \<Rightarrow> fetch_options \<Rightarrow> (js_error + js_value) \<times> state" where
  "fetchWithRetry_try s u options =
     (let s1 = s\<lparr>requestCount := requestCount s + 1\<rparr>;
          s2 = notifyListeners s1 ''request-started'' None;
          (response, s3) = fetch s2 u options
      in case response of
           Rejected error \<Rightarrow> (Inl error, s3)
         | Response ok status statusText body \<Rightarrow>
             if \<not> ok
             then (Inl (JsError ''Error''
                          (''HTTP '' @ number_toString status @ '': '' @ statusText)), s3)
             else (case body of
                     Inl error \<Rightarrow> (Inl error, s3)
                   | Inr d \<Rightarrow> (Inr d, notifyListeners s3 ''request-success'' None)))"

function fetchWithRetry ::
  "state \<Rightarrow> url \<Rightarrow> fetch_options \<Rightarrow> int \<Rightarrow> (js_error + js_value) \<times> state" where
  "fetchWithRetry s u options retries =
     (case fetchWithRetry_try s u options of
        (Inr d, s1) \<Rightarrow> (Inr d, s1)
      | (Inl error, s1) \<Rightarrow>
          if error_name error = ''AbortError'' then (Inl error, s1)
          else if retries > 0
          then fetchWithRetry (delay s1 (retryDelay (config s1))) u options (retries - 1)
          else (Inl error, notifyListeners s1 ''request-error'' (Some error)))"
  by pat_completeness auto
termination
  by (relation "measure (\<lambda>(s, u, options, retries). nat retries)") auto

declare fetchWithRetry.simps [simp del]

text \<open>
  The part of \<^verbatim>\<open>fetchData\<close> after the cache lookup: cancel, create the controller,
  build the URL, fetch, store.
\<close>

definition fetchData_network ::
  "state \<Rightarrow> string \<Rightarrow> string \<Rightarrow> js_object \<Rightarrow> bool \<Rightarrow> (js_error + js_value) \<times> state" where
  "fetchData_network s cacheKey endpoint params useCache =
     (let s1 = cancelPendingRequests s;
          (c, s2) = new_AbortController s1;
          s3 = s2\<lparr>abortController := Some c\<rparr>;
          u = URL (baseUrl s3 @ endpoint)
                (map (\<lambda>key. (key, toString (get_prop params key))) (object_keys params));
          (result, s4) = fetchWithRetry s3 u \<lparr>signal = abortController s3\<rparr>
                           (maxRetries (config s3))
      in case result of
           Inr d \<Rightarrow> (Inr d, if useCache then setCache s4 cacheKey d else s4)
         | Inl error \<Rightarrow>
             (Inl error,
              if error_name error \<noteq> ''AbortError'' then console_error s4 error else s4))"

definition fetchData ::
  "state \<Rightarrow> string \<Rightarrow> js_object \<Rightarrow> bool \<Rightarrow> (js_error + js_value) \<times> state" where
  "fetchData s endpoint params useCache =
     (let cacheKey = generateCacheKey endpoint params
      in if useCache
         then (let (cachedData, s1) = getCache s cacheKey
               in if truthy cachedData
                  then (Inr cachedData, notifyListeners s1 ''cache-hit'' None)
                  else fetchData_network s1 cacheKey endpoint params useCache)
         else fetchData_network s cacheKey endpoint params useCache)"

definition fetchPosts :: "state \<Rightarrow> int \<Rightarrow> int \<Rightarrow> (js_error + js_value) \<times> state" where
  "fetchPosts s page limit =
     (let start = (page - 1) * limit
      in fetchData s ''/posts'' [(''_start'', JNum start), (''_limit'', JNum limit)] True)"

section \<open>Searching and statistics\<close>

text \<open>What the promise returned by \<^verbatim>\<open>searchData\<close> resolves to.\<close>

definition searchData :: "js_object list \<Rightarrow> string \<Rightarrow> string list \<Rightarrow> js_object list" where
  "searchData items query field_names =
     (if trim query = [] then items
      else (let lowercaseQuery = toLowerCase query
            in filter (\<lambda>item.
                 list_ex (\<lambda>field.
                   (let v = get_prop item field
                    in truthy v \<and> string_includes (toLowerCase (toString v)) lowercaseQuery))
                   field_names)
                 items))"

definition getStats :: "state \<Rightarrow> js_object" where
  "getStats s =
     [(''cacheSize'', JNum (getCacheSize s)),
      (''requestCount'', JNum (requestCount s)),
      (''cachedItems'', JArr (map JStr (Map_keys (cache s))))]"

section \<open>Notions used to state the properties\<close>

text \<open>
  What one attempt of \<^verbatim>\<open>fetchWithRetry\<close> yields on a given outcome of \<^verbatim>\<open>fetch\<close>:
  the error its \<^verbatim>\<open>try\<close> block throws, or the parsed body it returns.
\<close>

fun attempt_result :: "fetch_outcome \<Rightarrow> js_error + js_value" where
  "attempt_result (Rejected error) = Inl error"
| "attempt_result (Response ok status statusText body) =
     (if \<not> ok
      then Inl (JsError ''Error'' (''HTTP '' @ number_toString status @ '': '' @ statusText))
      else body)"

text \<open>The effects of \<open>n\<close> failed attempts that are each followed by the retry delay.\<close>

definition failed_attempts :: "state \<Rightarrow> url \<Rightarrow> fetch_options \<Rightarrow> nat \<Rightarrow> effect list" where
  "failed_attempts s u options n =
     concat (replicate n
       [Notify ''request-started'' None, Fetch u options, Delay (retryDelay (config s))])"

text \<open>
  The cache key as it is specified, on the parameters as a key-value map: the names
  sorted, the pairs \<^verbatim>\<open>name=value\<close> joined with \<^verbatim>\<open>&\<close> and put after the endpoint and
  a \<^verbatim>\<open>?\<close>, or the endpoint alone when there are no parameters.
\<close>

definition cache_key_spec :: "string \<Rightarrow> (string \<rightharpoonup> js_value) \<Rightarrow> string" where
  "cache_key_spec endpoint m =
     (let names = sorted_list_of_set (dom m);
          pairs = map (\<lambda>k. k @ ''='' @ toString (case m k of None \<Rightarrow> JUndefined | Some v \<Rightarrow> v))
                    names
      in if dom m = {} then endpoint else endpoint @ ''?'' @ join ''&'' pairs)"

text \<open>\<open>sub\<close> occurs in \<open>s\<close> as a contiguous part.\<close>

definition contains_text :: "string \<Rightarrow> string \<Rightarrow> bool" where
  "contains_text s sub = (\<exists>pre suf. s = pre @ sub @ suf)"

text \<open>
  The effects that follow the issue of a request: notifications about the request and
  the cache update, network calls, delays and console output. Aborting a controller,
  creating one and the \<^verbatim>\<open>cache-hit\<close> notification are not among them.
\<close>

fun request_effect :: "effect \<Rightarrow> bool" where
  "request_effect (Notify event payload) =
     (event \<in> {''request-started'', ''request-success'', ''request-error'', ''cache-updated''})"
| "request_effect (Fetch u options) = True"
| "request_effect (Delay ms) = True"
| "request_effect (ConsoleError e) = True"
| "request_effect (Abort c) = False"
| "request_effect (NewController c) = False"

section \<open>Example networks and states\<close>

text \<open>A server that answers every request with status 500.\<close>

definition server_error :: "nat \<Rightarrow> reply" where
  "server_error i = Reply 20 (Response False 500 ''Internal Server Error'' (Inr JNull))"

text \<open>A network on which every request is cancelled.\<close>

definition aborted_net :: "nat \<Rightarrow> reply" where
  "aborted_net i = Reply 3 (Rejected (JsError ''AbortError'' ''The operation was aborted.''))"

text \<open>A server that answers every request with one post.\<close>

definition posts_net :: "nat \<Rightarrow> reply" where
  "posts_net i =
     Reply 35 (Response True 200 ''OK''
       (Inr (JArr [JObj [(''id'', JNum 1), (''title'', JStr ''Hello'')]])))"

text \<open>
  A manager at time 400000 whose cache holds the posts, stored at time 200000 and still
  valid, a zero under \<^verbatim>\<open>/users\<close>, stored at time 50000 and expired, and a zero
  under \<^verbatim>\<open>/unread\<close>, stored at time 390000 and still valid. Its server answers
  every request with status 500.
\<close>

definition cached_state :: state where
  "cached_state =
     (new_DataManager ''https://example.test'' 400000 server_error)
       \<lparr>cache := [(''/posts'', \<lparr>entry_data = JArr [JStr ''p''], entry_timestamp = 200000\<rparr>),
                 (''/users'', \<lparr>entry_data = JNum 0, entry_timestamp = 50000\<rparr>),
                 (''/unread'', \<lparr>entry_data = JNum 0, entry_timestamp = 390000\<rparr>)]\<rparr>"

definition failing_manager :: state where
  "failing_manager = new_DataManager ''https://example.test'' 0 server_error"

definition aborted_manager :: state where
  "aborted_manager = new_DataManager ''https://example.test'' 0 aborted_net"

definition paged_manager :: state where
  "paged_manager = new_DataManager ''https://example.test'' 0 posts_net"

text \<open>The same manager while a request made with controller 0 is in flight.\<close>

definition busy_state :: state where
  "busy_state = cached_state\<lparr>abortController := Some 0, controllers := [False]\<rparr>"

section \<open>Properties of the cache\<close>

lemma Map_get_delete: "Map_get (Map_delete k m) k' = (if k' = k then None else Map_get m k')"
  by (induction m) (auto simp: Map_get_def Map_delete_def)

text \<open>
  Claim C2. \<^verbatim>\<open>getCache(key)\<close> never returns an entry whose age \<open>clock - timestamp\<close> has
  reached \<open>cacheExpiry\<close>. When no entry is stored under the key it returns
  \<^verbatim>\<open>null\<close> and changes nothing; when the entry has expired it deletes that entry,
  leaving every other key as it was, and returns \<^verbatim>\<open>null\<close>; when the entry is fresh it
  returns the entry's data and changes nothing. So a result other than \<^verbatim>\<open>null\<close> is
  always the data of a fresh entry.
\<close>

theorem getCache_never_stale:
  "(Map_get (cache s) key = None \<longrightarrow> getCache s key = (JNull, s)) \<and>
   (Map_get (cache s) key = Some entry \<and>
      cacheExpiry (config s) \<le> clock s - entry_timestamp entry \<longrightarrow>
      getCache s key = (JNull, s\<lparr>cache := Map_delete key (cache s)\<rparr>) \<and>
      Map_get (cache (snd (getCache s key))) key = None) \<and>
   (Map_get (cache s) key = Some entry \<and>
      clock s - entry_timestamp entry < cacheExpiry (config s) \<longrightarrow>
      getCache s key = (entry_data entry, s)) \<and>
   (\<forall>k. k \<noteq> key \<longrightarrow> Map_get (cache (snd (getCache s key))) k = Map_get (cache s) k) \<and>
   (fst (getCache s key) \<noteq> JNull \<longrightarrow>
      (\<exists>e. Map_get (cache s) key = Some e \<and> fst (getCache s key) = entry_data e \<and>
           clock s - entry_timestamp e < cacheExpiry (config s)))"
  by (auto simp: getCache_def isCacheValid_def Map_get_delete split: option.splits)

theorem getCache_never_stale_witness:
  "getCache cached_state ''/comments'' = (JNull, cached_state) \<and>
   getCache cached_state ''/users'' =
     (JNull, cached_state\<lparr>cache := Map_delete ''/users'' (cache cached_state)\<rparr>) \<and>
   Map_get (cache (snd (getCache cached_state ''/users''))) ''/users'' = None \<and>
   Map_get (cache (snd (getCache cached_state ''/users''))) ''/posts'' =
     Some \<lparr>entry_data = JArr [JStr ''p''], entry_timestamp = 200000\<rparr> \<and>
   getCache cached_state ''/posts'' = (JArr [JStr ''p''], cached_state)"
proof -
  let ?users = "\<lparr>entry_data = JNum 0, entry_timestamp = 50000\<rparr>"
  let ?posts = "\<lparr>entry_data = JArr [JStr ''p''], entry_timestamp = 200000\<rparr>"
  have absent: "Map_get (cache cached_state) ''/comments'' = None"
    by (simp add: cached_state_def Map_get_def)
  have expired: "Map_get (cache cached_state) ''/users'' = Some ?users \<and>
      cacheExpiry (config cached_state) \<le> clock cached_state - entry_timestamp ?users"
    by (simp add: cached_state_def new_DataManager_def default_config_def Map_get_def)
  have fresh: "Map_get (cache cached_state) ''/posts'' = Some ?posts \<and>
      clock cached_state - entry_timestamp ?posts < cacheExpiry (config cached_state)"
    by (simp add: cached_state_def new_DataManager_def default_config_def Map_get_def)
  have other: "''/posts'' \<noteq> ''/users''"
    by simp
  note users = getCache_never_stale [of cached_state "''/users''" ?users]
  have c1: "getCache cached_state ''/comments'' = (JNull, cached_state)"
    by (rule getCache_never_stale [of cached_state "''/comments''", THEN conjunct1, THEN mp, OF absent])
  have c23: "getCache cached_state ''/users'' =
      (JNull, cached_state\<lparr>cache := Map_delete ''/users'' (cache cached_state)\<rparr>) \<and>
      Map_get (cache (snd (getCache cached_state ''/users''))) ''/users'' = None"
    by (rule users [THEN conjunct2, THEN conjunct1, THEN mp, OF expired])
  have "Map_get (cache (snd (getCache cached_state ''/users''))) ''/posts'' =
      Map_get (cache cached_state) ''/posts''"
    by (rule users [THEN conjunct2, THEN conjunct2, THEN conjunct2, THEN conjunct1,
          THEN spec, THEN mp, OF other])
  also have "\<dots> = Some ?posts"
    by (rule fresh [THEN conjunct1])
  finally have c4: "Map_get (cache (snd (getCache cached_state ''/users''))) ''/posts'' =
      Some ?posts" .
  have "getCache cached_state ''/posts'' = (entry_data ?posts, cached_state)"
    by (rule getCache_never_stale [of cached_state "''/posts''" ?posts,
          THEN conjunct2, THEN conjunct2, THEN conjunct1, THEN mp, OF fresh])
  then have c5: "getCache cached_state ''/posts'' = (JArr [JStr ''p''], cached_state)"
    by simp
  show ?thesis
    by (intro conjI c1 c23 [THEN conjunct1] c23 [THEN conjunct2] c4 c5)
qed

section \<open>Properties of fetching with retries\<close>

lemma fetchWithRetry_try_eq:
  "fetchWithRetry_try s u options =
     (attempt_result (outcome (net s (netCalls s))),
      s\<lparr>requestCount := requestCount s + 1,
        clock := clock s + int (elapsed (net s (netCalls s))),
        netCalls := Suc (netCalls s),
        trace := trace s @ [Notify ''request-started'' None, Fetch u options] @
          (case attempt_result (outcome (net s (netCalls s))) of
             Inl e \<Rightarrow> [] | Inr d \<Rightarrow> [Notify ''request-success'' None])\<rparr>)"
  by (simp add: fetchWithRetry_try_def fetch_def notifyListeners_def Let_def
      split: fetch_outcome.splits sum.splits)

lemma fetchWithRetry_abort:
  assumes "attempt_result (outcome (net s (netCalls s))) = Inl error"
    and "error_name error = ''AbortError''"
  shows "fetchWithRetry s u options retries =
     (Inl error,
      s\<lparr>requestCount := requestCount s + 1,
        clock := clock s + int (elapsed (net s (netCalls s))),
        netCalls := Suc (netCalls s),
        trace := trace s @ [Notify ''request-started'' None, Fetch u options]\<rparr>)"
  using assms by (simp add: fetchWithRetry.simps [of s] fetchWithRetry_try_eq)

lemma fetchWithRetry_retry:
  assumes "attempt_result (outcome (net s (netCalls s))) = Inl error"
    and "error_name error \<noteq> ''AbortError''" and "0 < retries"
  shows "fetchWithRetry s u options retries =
     fetchWithRetry (delay (snd (fetchWithRetry_try s u options)) (retryDelay (config s)))
       u options (retries - 1)"
  using assms by (simp add: fetchWithRetry.simps [of s] fetchWithRetry_try_eq)

lemma fetchWithRetry_exhausted:
  assumes "attempt_result (outcome (net s (netCalls s))) = Inl error"
    and "error_name error \<noteq> ''AbortError''" and "\<not> 0 < retries"
  shows "fetchWithRetry s u options retries =
     (Inl error,
      s\<lparr>requestCount := requestCount s + 1,
        clock := clock s + int (elapsed (net s (netCalls s))),
        netCalls := Suc (netCalls s),
        trace := trace s @ [Notify ''request-started'' None, Fetch u options,
                            Notify ''request-error'' (Some error)]\<rparr>)"
  using assms
  by (simp add: fetchWithRetry.simps [of s] fetchWithRetry_try_eq notifyListeners_def)

lemma failed_then_delay:
  fixes s u options
  defines "s' \<equiv> delay (snd (fetchWithRetry_try s u options)) (retryDelay (config s))"
  assumes "attempt_result (outcome (net s (netCalls s))) = Inl error"
  shows "net s' = net s" and "netCalls s' = Suc (netCalls s)"
    and "requestCount s' = requestCount s + 1" and "config s' = config s"
    and "trace s' = trace s @ [Notify ''request-started'' None, Fetch u options,
                               Delay (retryDelay (config s))]"
  using assms(2) by (simp_all add: s'_def fetchWithRetry_try_eq delay_def)

lemma fetchWithRetry_all_fail:
  assumes "\<forall>i\<le>n. \<exists>e. attempt_result (outcome (net s (netCalls s + i))) = Inl e \<and>
             error_name e \<noteq> ''AbortError''"
  shows "fst (fetchWithRetry s u options (int n)) =
           attempt_result (outcome (net s (netCalls s + n))) \<and>
         netCalls (snd (fetchWithRetry s u options (int n))) = netCalls s + n + 1 \<and>
         requestCount (snd (fetchWithRetry s u options (int n))) = requestCount s + int n + 1 \<and>
         (\<forall>e. attempt_result (outcome (net s (netCalls s + n))) = Inl e \<longrightarrow>
            trace (snd (fetchWithRetry s u options (int n))) =
              trace s @ failed_attempts s u options n @
                [Notify ''request-started'' None, Fetch u options,
                 Notify ''request-error'' (Some e)])"
  using assms
proof (induction n arbitrary: s)
  case 0
  then obtain e where e: "attempt_result (outcome (net s (netCalls s))) = Inl e"
      "error_name e \<noteq> ''AbortError''"
    by auto
  have "fetchWithRetry s u options 0 =
     (Inl e,
      s\<lparr>requestCount := requestCount s + 1,
        clock := clock s + int (elapsed (net s (netCalls s))),
        netCalls := Suc (netCalls s),
        trace := trace s @ [Notify ''request-started'' None, Fetch u options,
                            Notify ''request-error'' (Some e)]\<rparr>)"
    by (rule fetchWithRetry_exhausted [OF e]) simp
  with e(1) show ?case
    by (simp add: failed_attempts_def)
next
  case (Suc n)
  from Suc.prems have "\<exists>e. attempt_result (outcome (net s (netCalls s + 0))) = Inl e \<and>
             error_name e \<noteq> ''AbortError''"
    by blast
  then obtain e where e: "attempt_result (outcome (net s (netCalls s))) = Inl e"
      "error_name e \<noteq> ''AbortError''"
    by auto
  define s' where "s' = delay (snd (fetchWithRetry_try s u options)) (retryDelay (config s))"
  note s' = failed_then_delay [of s _ u options, OF e(1), folded s'_def]
  have "fetchWithRetry s u options (int (Suc n)) = fetchWithRetry s' u options (int (Suc n) - 1)"
    unfolding s'_def by (rule fetchWithRetry_retry [OF e]) simp
  then have step: "fetchWithRetry s u options (int (Suc n)) = fetchWithRetry s' u options (int n)"
    by simp
  have "\<forall>i\<le>n. \<exists>e. attempt_result (outcome (net s' (netCalls s' + i))) = Inl e \<and>
             error_name e \<noteq> ''AbortError''"
  proof (intro allI impI)
    fix i assume "i \<le> n"
    then have "Suc i \<le> Suc n" by simp
    with Suc.prems have "\<exists>e. attempt_result (outcome (net s (netCalls s + Suc i))) = Inl e \<and>
             error_name e \<noteq> ''AbortError''"
      by blast
    then show "\<exists>e. attempt_result (outcome (net s' (netCalls s' + i))) = Inl e \<and>
             error_name e \<noteq> ''AbortError''"
      by (simp add: s')
  qed
  from Suc.IH [OF this] show ?case
    unfolding step by (simp add: s' failed_attempts_def)
qed

text \<open>
  Claim C1. For a retry budget \<open>r \<ge> 0\<close>, when each of the next \<open>r + 1\<close> network
  attempts fails with an error other than a cancellation,
  \<^verbatim>\<open>fetchWithRetry(url, options, r)\<close> makes exactly \<open>r + 1\<close> network calls and raises
  \<^verbatim>\<open>requestCount\<close> by \<open>r + 1\<close>, one per attempt: its effects are \<open>r\<close> attempts that are
  each followed by the retry delay, then a last attempt, then the
  \<^verbatim>\<open>request-error\<close> notification carrying the error of that last attempt, which is
  the error the call throws.
\<close>

theorem fetchWithRetry_attempts:
  assumes "0 \<le> r"
    and "\<forall>i\<le>nat r. \<exists>e. attempt_result (outcome (net s (netCalls s + i))) = Inl e \<and>
           error_name e \<noteq> ''AbortError''"
  shows "netCalls (snd (fetchWithRetry s u options r)) = netCalls s + nat r + 1 \<and>
         requestCount (snd (fetchWithRetry s u options r)) = requestCount s + (r + 1) \<and>
         (\<exists>e. attempt_result (outcome (net s (netCalls s + nat r))) = Inl e \<and>
              fst (fetchWithRetry s u options r) = Inl e \<and>
              trace (snd (fetchWithRetry s u options r)) =
                trace s @ failed_attempts s u options (nat r) @
                  [Notify ''request-started'' None, Fetch u options,
                   Notify ''request-error'' (Some e)])"
proof -
  from assms(2) obtain e where e: "attempt_result (outcome (net s (netCalls s + nat r))) = Inl e"
    by blast
  from assms(1) have r: "int (nat r) = r"
    by simp
  from fetchWithRetry_all_fail [OF assms(2), of u options] e show ?thesis
    unfolding r by simp
qed

theorem fetchWithRetry_attempts_witness:
  "netCalls (snd (fetchWithRetry failing_manager (URL ''u'' []) \<lparr>signal = None\<rparr> 2)) = 3 \<and>
   requestCount (snd (fetchWithRetry failing_manager (URL ''u'' []) \<lparr>signal = None\<rparr> 2)) = 3 \<and>
   netCalls (snd (fetchWithRetry failing_manager (URL ''u'' []) \<lparr>signal = None\<rparr> 0)) = 1 \<and>
   requestCount (snd (fetchWithRetry failing_manager (URL ''u'' []) \<lparr>signal = None\<rparr> 0)) = 1"
proof -
  have fails: "\<forall>i\<le>nat r. \<exists>e.
      attempt_result (outcome (net failing_manager (netCalls failing_manager + i))) = Inl e \<and>
      error_name e \<noteq> ''AbortError''" for r
    by (simp add: failing_manager_def new_DataManager_def server_error_def)
  have start: "netCalls failing_manager = 0" "requestCount failing_manager = 0"
    by (simp_all add: failing_manager_def new_DataManager_def)
  have two: "(0::int) \<le> 2" and zero: "(0::int) \<le> 0"
    by simp_all
  show ?thesis
    using fetchWithRetry_attempts [OF two fails, of "URL ''u'' []" "\<lparr>signal = None\<rparr>"]
      fetchWithRetry_attempts [OF zero fails, of "URL ''u'' []" "\<lparr>signal = None\<rparr>"]
    by (simp add: start)
qed

text \<open>
  Claim C3. When an attempt of \<^verbatim>\<open>fetchWithRetry\<close> fails with an error named
  \<^verbatim>\<open>AbortError\<close>, the call throws that error at once, whatever the remaining retry
  budget: the state it leaves is the state before the call with the request counted,
  the network call made and the two effects of that one attempt recorded, so there is
  no retry, no delay and no \<^verbatim>\<open>request-error\<close> notification.
\<close>

theorem fetchWithRetry_abort_propagates:
  assumes "attempt_result (outcome (net s (netCalls s))) = Inl error"
    and "error_name error = ''AbortError''"
  shows "fetchWithRetry s u options retries =
     (Inl error,
      s\<lparr>requestCount := requestCount s + 1,
        clock := clock s + int (elapsed (net s (netCalls s))),
        netCalls := Suc (netCalls s),
        trace := trace s @ [Notify ''request-started'' None, Fetch u options]\<rparr>)"
  using assms by (rule fetchWithRetry_abort)

theorem fetchWithRetry_abort_propagates_witness:
  "fetchWithRetry aborted_manager (URL ''u'' []) \<lparr>signal = Some 0\<rparr> 3 =
     (Inl (JsError ''AbortError'' ''The operation was aborted.''),
      aborted_manager\<lparr>requestCount := 1, clock := 3, netCalls := 1,
        trace := [Notify ''request-started'' None,
                  Fetch (URL ''u'' []) \<lparr>signal = Some 0\<rparr>]\<rparr>)"
proof -
  let ?e = "JsError ''AbortError'' ''The operation was aborted.''"
  have thrown: "attempt_result (outcome (net aborted_manager (netCalls aborted_manager))) = Inl ?e"
    by (simp add: aborted_manager_def new_DataManager_def aborted_net_def)
  have name: "error_name ?e = ''AbortError''"
    by simp
  have start: "requestCount aborted_manager = 0" "clock aborted_manager = 0"
    "netCalls aborted_manager = 0" "trace aborted_manager = []"
    "elapsed (net aborted_manager 0) = 3"
    by (simp_all add: aborted_manager_def new_DataManager_def aborted_net_def)
  show ?thesis
    using fetchWithRetry_abort_propagates [OF thrown name, of "URL ''u'' []" "\<lparr>signal = Some 0\<rparr>" 3]
    by (simp add: start)
qed

section \<open>Properties of the cache key\<close>

lemma join_nonempty: "xs \<noteq> [] \<Longrightarrow> \<forall>x\<in>set xs. x \<noteq> [] \<Longrightarrow> join sep xs \<noteq> []"
  by (induction sep xs rule: join.induct) auto

lemma sort_object_keys:
  "distinct (object_keys ps) \<Longrightarrow> sort (object_keys ps) = sorted_list_of_set (dom (map_of ps))"
  by (simp add: object_keys_def dom_map_of_conv_image_fst sorted_list_of_set_sort_remdups
      distinct_remdups_id flip: set_map)

lemma generateCacheKey_spec:
  assumes "distinct (object_keys ps)"
  shows "generateCacheKey endpoint ps = cache_key_spec endpoint (map_of ps)"
proof (cases "ps = []")
  case True
  then show ?thesis
    by (simp add: generateCacheKey_def cache_key_spec_def object_keys_def)
next
  case False
  let ?pairs = "map (\<lambda>key. key @ ''='' @ toString (get_prop ps key)) (sort (object_keys ps))"
  have "length ?pairs = length ps"
    by (simp add: object_keys_def)
  with False have "?pairs \<noteq> []"
    by (metis length_0_conv)
  moreover have "\<forall>x\<in>set ?pairs. x \<noteq> []"
    by auto
  ultimately have "join ''&'' ?pairs \<noteq> []"
    by (rule join_nonempty)
  moreover from False have "dom (map_of ps) \<noteq> {}"
    by (cases ps) auto
  ultimately show ?thesis
    using sort_object_keys [OF assms]
    by (simp add: generateCacheKey_def cache_key_spec_def get_prop_def Let_def)
qed

text \<open>
  Claim C4. \<^verbatim>\<open>generateCacheKey\<close> does not depend on the order in which the
  parameters were inserted: two parameter objects that are equal as key-value maps give
  the same key, and that key is the specified one, built from the sorted parameter
  names.
\<close>

theorem generateCacheKey_order_invariant:
  assumes "distinct (object_keys ps)" and "distinct (object_keys qs)"
    and "map_of ps = map_of qs"
  shows "generateCacheKey endpoint ps = generateCacheKey endpoint qs \<and>
         generateCacheKey endpoint ps = cache_key_spec endpoint (map_of ps)"
  using assms by (simp add: generateCacheKey_spec)

theorem generateCacheKey_order_invariant_witness:
  "generateCacheKey ''/posts'' [(''a'', JNum 1), (''b'', JNum 2)] =
   generateCacheKey ''/posts'' [(''b'', JNum 2), (''a'', JNum 1)] \<and>
   generateCacheKey ''/posts'' [(''b'', JNum 2), (''a'', JNum 1)] = ''/posts?a=1&b=2''"
proof -
  let ?ps = "[(''a'', JNum 1), (''b'', JNum 2)]" and ?qs = "[(''b'', JNum 2), (''a'', JNum 1)]"
  have d: "distinct (object_keys ?ps)" "distinct (object_keys ?qs)"
    by (simp_all add: object_keys_def)
  have m: "map_of ?ps = map_of ?qs"
    by (auto simp: fun_eq_iff)
  have "generateCacheKey ''/posts'' ?qs = ''/posts?a=1&b=2''"
    by code_simp
  with generateCacheKey_order_invariant [OF d m, of "''/posts''"] show ?thesis
    by simp
qed

section \<open>Properties of searching\<close>

lemma take_is_prefix: "take (length sub) s = sub \<longleftrightarrow> (\<exists>suf. s = sub @ suf)"
  by (metis append_eq_conv_conj)

lemma string_includes_iff: "string_includes s sub \<longleftrightarrow> contains_text s sub"
proof (induction s)
  case Nil
  then show ?case by (simp add: contains_text_def)
next
  case (Cons c cs)
  have "contains_text (c # cs) sub \<longleftrightarrow>
      (\<exists>suf. c # cs = sub @ suf) \<or> contains_text cs sub"
    unfolding contains_text_def
  proof
    assume "\<exists>pre suf. c # cs = pre @ sub @ suf"
    then obtain pre suf where eq: "c # cs = pre @ sub @ suf" by blast
    show "(\<exists>suf. c # cs = sub @ suf) \<or> (\<exists>pre suf. cs = pre @ sub @ suf)"
    proof (cases pre)
      case Nil
      with eq show ?thesis by auto
    next
      case (Cons p pre')
      with eq have "cs = pre' @ sub @ suf" by simp
      then show ?thesis by blast
    qed
  next
    assume "(\<exists>suf. c # cs = sub @ suf) \<or> (\<exists>pre suf. cs = pre @ sub @ suf)"
    then show "\<exists>pre suf. c # cs = pre @ sub @ suf"
    proof
      assume "\<exists>suf. c # cs = sub @ suf"
      then obtain suf where "c # cs = [] @ sub @ suf" by auto
      then show ?thesis by blast
    next
      assume "\<exists>pre suf. cs = pre @ sub @ suf"
      then obtain pre suf where "c # cs = (c # pre) @ sub @ suf" by auto
      then show ?thesis by blast
    qed
  qed
  with Cons.IH show ?case
    by (simp only: string_includes.simps take_is_prefix)
qed

lemma trim_empty_iff: "trim s = [] \<longleftrightarrow> (\<forall>c\<in>set s. is_white_space c)"
proof
  assume "trim s = []"
  then have all: "\<forall>c\<in>set (dropWhile is_white_space s). is_white_space c"
    by (simp add: trim_def dropWhile_eq_Nil_conv)
  have "dropWhile is_white_space s = []"
  proof (rule ccontr)
    assume ne: "dropWhile is_white_space s \<noteq> []"
    then have "\<not> is_white_space (hd (dropWhile is_white_space s))"
      by (rule hd_dropWhile)
    with all ne show False
      by (meson hd_in_set)
  qed
  then show "\<forall>c\<in>set s. is_white_space c"
    by (simp add: dropWhile_eq_Nil_conv)
next
  assume "\<forall>c\<in>set s. is_white_space c"
  then show "trim s = []"
    by (auto simp: trim_def dest: set_dropWhileD)
qed

text \<open>
  Claim C6, as the code has it. \<^verbatim>\<open>searchData\<close> returns the items unchanged when the
  query is empty or consists of white space only. Otherwise it returns, in their order,
  exactly the items for which one of the given fields has a truthy value whose text, in
  lower case, contains the query in lower case. A field whose value is falsy
  (\<^verbatim>\<open>0\<close>, \<^verbatim>\<open>false\<close>, the empty string, \<^verbatim>\<open>null\<close>, a missing field) never matches.
\<close>

theorem searchData_truthy_contains:
  "searchData items query field_names =
     (if \<forall>c\<in>set query. is_white_space c then items
      else filter (\<lambda>item. \<exists>field\<in>set field_names.
               truthy (get_prop item field) \<and>
               contains_text (toLowerCase (toString (get_prop item field)))
                 (toLowerCase query))
             items)"
  by (simp add: searchData_def trim_empty_iff string_includes_iff list_ex_iff Let_def)

theorem searchData_truthy_contains_witness:
  "searchData [[(''title'', JStr ''Hello'')], [(''title'', JStr ''Bye''), (''body'', JNum 0)]]
     ''ELL'' [''title'', ''body''] = [[(''title'', JStr ''Hello'')]] \<and>
   searchData [[(''title'', JStr ''Hello'')], [(''title'', JStr ''Bye''), (''body'', JNum 0)]]
     ''  '' [''title'', ''body''] =
     [[(''title'', JStr ''Hello'')], [(''title'', JStr ''Bye''), (''body'', JNum 0)]]"
proof -
  let ?items = "[[(''title'', JStr ''Hello'')], [(''title'', JStr ''Bye''), (''body'', JNum 0)]]"
  have blank: "\<forall>c\<in>set ''  ''. is_white_space c"
    by (simp add: is_white_space_def)
  have "searchData ?items ''  '' [''title'', ''body''] = ?items"
    by (rule trans [OF searchData_truthy_contains if_P [OF blank]])
  moreover have "searchData ?items ''ELL'' [''title'', ''body''] = [[(''title'', JStr ''Hello'')]]"
    by code_simp
  ultimately show ?thesis
    by simp
qed

text \<open>
  The claim without the truthiness test fails: the text of the number \<^verbatim>\<open>0\<close> contains
  the query \<^verbatim>\<open>0\<close>, and the item is not returned.
\<close>

theorem searchData_falsy_counterexample:
  "searchData [[(''title'', JNum 0)]] ''0'' [''title''] = [] \<and>
   trim ''0'' \<noteq> [] \<and>
   string_includes (toLowerCase (toString (get_prop [(''title'', JNum 0)] ''title'')))
     (toLowerCase ''0'')"
  by code_simp

section \<open>Properties of the derived endpoint and the statistics\<close>

text \<open>
  Claim C7, as the code has it. \<^verbatim>\<open>fetchPosts(page, limit)\<close> is \<^verbatim>\<open>fetchData\<close> on
  \<^verbatim>\<open>/posts\<close> with the parameters \<^verbatim>\<open>_start\<close>, holding \<open>(page - 1) * limit\<close>, and
  \<^verbatim>\<open>_limit\<close>, holding \<open>limit\<close>, with the cache in use; the cache key of such a
  request names \<^verbatim>\<open>_limit\<close> before \<^verbatim>\<open>_start\<close>.
\<close>

theorem fetchPosts_delegates:
  "fetchPosts s page limit =
     fetchData s ''/posts''
       [(''_start'', JNum ((page - 1) * limit)), (''_limit'', JNum limit)] True \<and>
   generateCacheKey ''/posts''
       [(''_start'', JNum ((page - 1) * limit)), (''_limit'', JNum limit)] =
     ''/posts?_limit='' @ number_toString limit @
       ''&_start='' @ number_toString ((page - 1) * limit)"
proof -
  have "sort [''_start'', ''_limit''] = [''_limit'', ''_start'']"
    by code_simp
  then show ?thesis
    by (simp add: fetchPosts_def generateCacheKey_def object_keys_def get_prop_def)
qed

text \<open>
  With parameters named \<^verbatim>\<open>start\<close> and \<^verbatim>\<open>limit\<close> the request is another one: it is
  cached under another key.
\<close>

theorem fetchPosts_names_counterexample:
  "fetchPosts paged_manager 2 10 \<noteq>
     fetchData paged_manager ''/posts'' [(''start'', JNum 10), (''limit'', JNum 10)] True"
proof
  assume "fetchPosts paged_manager 2 10 =
     fetchData paged_manager ''/posts'' [(''start'', JNum 10), (''limit'', JNum 10)] True"
  then have "Map_keys (cache (snd (fetchPosts paged_manager 2 10))) =
     Map_keys (cache (snd (fetchData paged_manager ''/posts''
       [(''start'', JNum 10), (''limit'', JNum 10)] True)))"
    by simp
  moreover have "Map_keys (cache (snd (fetchPosts paged_manager 2 10))) =
      [''/posts?_limit=10&_start=10'']"
    by code_simp
  moreover have "Map_keys (cache (snd (fetchData paged_manager ''/posts''
       [(''start'', JNum 10), (''limit'', JNum 10)] True))) = [''/posts?limit=10&start=10'']"
    by code_simp
  ultimately show False
    by simp
qed

lemma set_Map_set: "set (Map_keys (Map_set k v m)) = insert k (set (Map_keys m))"
  by (induction m) (auto simp: Map_keys_def)

lemma distinct_Map_set: "distinct (Map_keys m) \<Longrightarrow> distinct (Map_keys (Map_set k v m))"
proof (induction m)
  case Nil
  then show ?case by (simp add: Map_keys_def)
next
  case (Cons p m)
  show ?case
  proof (cases "fst p = k")
    case True
    with Cons.prems show ?thesis by (simp add: Map_keys_def)
  next
    case False
    from Cons.prems have "fst p \<notin> set (Map_keys m)" and "distinct (Map_keys m)"
      by (simp_all add: Map_keys_def)
    with False Cons.IH have "fst p \<notin> set (Map_keys (Map_set k v m))"
        and "distinct (Map_keys (Map_set k v m))"
      by (simp_all add: set_Map_set)
    with False show ?thesis
      by (simp add: Map_keys_def)
  qed
qed

lemma distinct_Map_delete: "distinct (Map_keys m) \<Longrightarrow> distinct (Map_keys (Map_delete k m))"
  by (simp add: Map_keys_def Map_delete_def distinct_map_filter)

lemma set_Map_keys: "set (Map_keys m) = dom (Map_get m)"
proof -
  have "Map_get m = map_of m"
    by (rule ext) (simp add: Map_get_def)
  then show ?thesis
    by (simp add: Map_keys_def dom_map_of_conv_image_fst)
qed

text \<open>
  Claim C8, as the code has it. \<^verbatim>\<open>getStats()\<close> returns an object with the fields
  \<^verbatim>\<open>cacheSize\<close>, the number of entries of the cache, \<^verbatim>\<open>requestCount\<close>, the request
  counter, and \<^verbatim>\<open>cachedItems\<close>, the array of the keys of the cache in insertion
  order. These keys are exactly the keys under which the cache holds an entry, and in a
  cache without repeated keys \<^verbatim>\<open>cacheSize\<close> is their number.
\<close>

theorem getStats_snapshot:
  "getStats s =
     [(''cacheSize'', JNum (int (length (cache s)))),
      (''requestCount'', JNum (requestCount s)),
      (''cachedItems'', JArr (map JStr (Map_keys (cache s))))] \<and>
   set (Map_keys (cache s)) = dom (Map_get (cache s)) \<and>
   (distinct (Map_keys (cache s)) \<longrightarrow> length (cache s) = card (dom (Map_get (cache s))))"
proof -
  have "distinct (Map_keys (cache s)) \<longrightarrow> length (cache s) = card (dom (Map_get (cache s)))"
    using distinct_card [of "Map_keys (cache s)"]
    by (simp add: set_Map_keys [symmetric]) (simp add: Map_keys_def)
  then show ?thesis
    by (simp add: getStats_def getCacheSize_def set_Map_keys)
qed

theorem getStats_snapshot_witness:
  "getStats cached_state =
     [(''cacheSize'', JNum 3), (''requestCount'', JNum 0),
      (''cachedItems'', JArr [JStr ''/posts'', JStr ''/users'', JStr ''/unread''])] \<and>
   card (dom (Map_get (cache cached_state))) = 3"
proof -
  have d: "distinct (Map_keys (cache cached_state))"
    by (simp add: cached_state_def Map_keys_def)
  have "length (cache cached_state) = card (dom (Map_get (cache cached_state)))"
    by (rule getStats_snapshot [of cached_state, THEN conjunct2, THEN conjunct2, THEN mp, OF d])
  moreover have "length (cache cached_state) = 3"
    by (simp add: cached_state_def)
  moreover have "getStats cached_state =
     [(''cacheSize'', JNum 3), (''requestCount'', JNum 0),
      (''cachedItems'', JArr [JStr ''/posts'', JStr ''/users'', JStr ''/unread''])]"
    by (simp add: getStats_snapshot [of cached_state, THEN conjunct1])
      (simp add: cached_state_def new_DataManager_def Map_keys_def)
  ultimately show ?thesis
    by simp
qed

text \<open>The object has no field named \<^verbatim>\<open>cachedKeys\<close>: the keys are under \<^verbatim>\<open>cachedItems\<close>.\<close>

theorem getStats_cachedKeys_counterexample:
  "get_prop (getStats cached_state) ''cachedKeys'' = JUndefined \<and>
   get_prop (getStats cached_state) ''cachedItems'' =
     JArr [JStr ''/posts'', JStr ''/users'', JStr ''/unread'']"
  by code_simp

section \<open>What fetching with retries changes\<close>

text \<open>
  \<^verbatim>\<open>fetchWithRetry\<close> leaves the cache, the controllers, the configuration and the
  base URL as they are; what it records starts with the first attempt and holds only
  effects of requests. Its result does not depend on the cache.
\<close>

lemma fetchWithRetry_success:
  assumes "attempt_result (outcome (net s (netCalls s))) = Inr d"
  shows "fetchWithRetry s u options retries =
     (Inr d,
      s\<lparr>requestCount := requestCount s + 1,
        clock := clock s + int (elapsed (net s (netCalls s))),
        netCalls := Suc (netCalls s),
        trace := trace s @ [Notify ''request-started'' None, Fetch u options,
                            Notify ''request-success'' None]\<rparr>)"
  using assms by (simp add: fetchWithRetry.simps [of s] fetchWithRetry_try_eq)

lemma failed_then_delay_frame:
  fixes s u options
  defines "s' \<equiv> delay (snd (fetchWithRetry_try s u options)) (retryDelay (config s))"
  shows "cache s' = cache s" and "abortController s' = abortController s"
    and "controllers s' = controllers s" and "baseUrl s' = baseUrl s"
  by (simp_all add: s'_def fetchWithRetry_try_eq delay_def)

lemma fetchWithRetry_frame_trace:
  "cache (snd (fetchWithRetry s u options retries)) = cache s \<and>
   abortController (snd (fetchWithRetry s u options retries)) = abortController s \<and>
   controllers (snd (fetchWithRetry s u options retries)) = controllers s \<and>
   config (snd (fetchWithRetry s u options retries)) = config s \<and>
   baseUrl (snd (fetchWithRetry s u options retries)) = baseUrl s \<and>
   net (snd (fetchWithRetry s u options retries)) = net s \<and>
   (\<exists>es. trace (snd (fetchWithRetry s u options retries)) =
          trace s @ [Notify ''request-started'' None, Fetch u options] @ es \<and>
        list_all request_effect es)"
proof (induction retries arbitrary: s rule: measure_induct_rule [of nat])
  case (less retries)
  show ?case
  proof (cases "attempt_result (outcome (net s (netCalls s)))")
    case (Inr d)
    show ?thesis
      by (simp add: fetchWithRetry_success [OF Inr])
  next
    case (Inl e)
    show ?thesis
    proof (cases "error_name e = ''AbortError''")
      case True
      show ?thesis
        by (simp add: fetchWithRetry_abort [OF Inl True])
    next
      case False
      show ?thesis
      proof (cases "0 < retries")
        case exhausted: False
        show ?thesis
          by (simp add: fetchWithRetry_exhausted [OF Inl False exhausted])
      next
        case True
        define s' where "s' = delay (snd (fetchWithRetry_try s u options)) (retryDelay (config s))"
        note s' = failed_then_delay [of s _ u options, OF Inl, folded s'_def]
          failed_then_delay_frame [of s u options, folded s'_def]
        have step: "fetchWithRetry s u options retries = fetchWithRetry s' u options (retries - 1)"
          unfolding s'_def by (rule fetchWithRetry_retry [OF Inl False True])
        from True have "nat (retries - 1) < nat retries"
          by simp
        from less.IH [OF this, of s'] obtain es where
          frame: "cache (snd (fetchWithRetry s' u options (retries - 1))) = cache s'"
            "abortController (snd (fetchWithRetry s' u options (retries - 1))) = abortController s'"
            "controllers (snd (fetchWithRetry s' u options (retries - 1))) = controllers s'"
            "config (snd (fetchWithRetry s' u options (retries - 1))) = config s'"
            "baseUrl (snd (fetchWithRetry s' u options (retries - 1))) = baseUrl s'"
            "net (snd (fetchWithRetry s' u options (retries - 1))) = net s'"
          and tr: "trace (snd (fetchWithRetry s' u options (retries - 1))) =
            trace s' @ [Notify ''request-started'' None, Fetch u options] @ es"
          and es: "list_all request_effect es"
          by blast
        let ?es = "Delay (retryDelay (config s)) #
          Notify ''request-started'' None # Fetch u options # es"
        have "trace (snd (fetchWithRetry s u options retries)) =
            trace s @ [Notify ''request-started'' None, Fetch u options] @ ?es"
          unfolding step tr by (simp add: s')
        moreover have "list_all request_effect ?es"
          using es by simp
        ultimately have "\<exists>es. trace (snd (fetchWithRetry s u options retries)) =
            trace s @ [Notify ''request-started'' None, Fetch u options] @ es \<and>
            list_all request_effect es"
          by blast
        then show ?thesis
          unfolding step by (simp add: frame s')
      qed
    qed
  qed
qed

lemma fetchWithRetry_try_cache:
  "fetchWithRetry_try (s\<lparr>cache := c\<rparr>) u options =
     (fst (fetchWithRetry_try s u options), (snd (fetchWithRetry_try s u options))\<lparr>cache := c\<rparr>)"
  by (cases s) (simp add: fetchWithRetry_try_eq)

lemma delay_cache: "delay (s\<lparr>cache := c\<rparr>) ms = (delay s ms)\<lparr>cache := c\<rparr>"
  by (cases s) (simp add: delay_def)

lemma notifyListeners_cache:
  "notifyListeners (s\<lparr>cache := c\<rparr>) event payload = (notifyListeners s event payload)\<lparr>cache := c\<rparr>"
  by (cases s) (simp add: notifyListeners_def)

lemma fetchWithRetry_cache:
  "fetchWithRetry (s\<lparr>cache := c\<rparr>) u options retries =
     (fst (fetchWithRetry s u options retries),
      (snd (fetchWithRetry s u options retries))\<lparr>cache := c\<rparr>)"
proof (induction retries arbitrary: s rule: measure_induct_rule [of nat])
  case (less retries)
  obtain res s1 where tried: "fetchWithRetry_try s u options = (res, s1)"
    by (cases "fetchWithRetry_try s u options")
  then have tried_c: "fetchWithRetry_try (s\<lparr>cache := c\<rparr>) u options = (res, s1\<lparr>cache := c\<rparr>)"
    by (simp add: fetchWithRetry_try_cache)
  have cfg: "config (s1\<lparr>cache := c\<rparr>) = config s1"
    by simp
  show ?case
  proof (cases res)
    case (Inr d)
    with tried tried_c show ?thesis
      by (simp add: fetchWithRetry.simps [of s] fetchWithRetry.simps [of "s\<lparr>cache := c\<rparr>"])
  next
    case (Inl e)
    show ?thesis
    proof (cases "error_name e \<noteq> ''AbortError'' \<and> 0 < retries")
      case False
      with tried tried_c Inl show ?thesis
        by (auto simp: fetchWithRetry.simps [of s] fetchWithRetry.simps [of "s\<lparr>cache := c\<rparr>"]
            notifyListeners_cache)
    next
      case True
      then have "nat (retries - 1) < nat retries"
        by simp
      note IH = less.IH [OF this, of "delay s1 (retryDelay (config s1))"]
      from True tried tried_c Inl show ?thesis
        by (simp add: fetchWithRetry.simps [of s] fetchWithRetry.simps [of "s\<lparr>cache := c\<rparr>"]
            delay_cache IH)
    qed
  qed
qed

section \<open>Properties of fetchData\<close>

lemma Map_get_set_same: "Map_get (Map_set k v m) k = Some v"
  by (induction m) (auto simp: Map_get_def)

lemma getCache_truthy:
  assumes "truthy (fst (getCache s key))"
  shows "\<exists>entry. Map_get (cache s) key = Some entry \<and> isCacheValid s entry \<and>
           getCache s key = (entry_data entry, s)"
  using assms by (auto simp: getCache_def split: option.splits if_splits)

lemma getCache_valid:
  assumes "Map_get (cache s) key = Some entry" and "isCacheValid s entry"
  shows "getCache s key = (entry_data entry, s)"
  using assms by (simp add: getCache_def)

lemma fetchData_hit:
  assumes "Map_get (cache s) (generateCacheKey endpoint params) = Some entry"
    and "isCacheValid s entry" and "truthy (entry_data entry)"
  shows "fetchData s endpoint params True =
    (Inr (entry_data entry), s\<lparr>trace := trace s @ [Notify ''cache-hit'' None]\<rparr>)"
  using assms by (simp add: fetchData_def getCache_valid notifyListeners_def)

lemma fetchData_miss:
  assumes "\<not> (useCache \<and> truthy (fst (getCache s (generateCacheKey endpoint params))))"
  shows "fetchData s endpoint params useCache =
    fetchData_network (if useCache then snd (getCache s (generateCacheKey endpoint params)) else s)
      (generateCacheKey endpoint params) endpoint params useCache"
  using assms by (auto simp: fetchData_def Let_def split: prod.splits)

lemma getCache_frame:
  "trace (snd (getCache s key)) = trace s" "abortController (snd (getCache s key)) = abortController s"
  "controllers (snd (getCache s key)) = controllers s" "baseUrl (snd (getCache s key)) = baseUrl s"
  "config (snd (getCache s key)) = config s"
  by (simp_all add: getCache_def split: option.splits)

text \<open>
  The state in which \<^verbatim>\<open>fetchData\<close> issues its request: the previous controller
  aborted, a new one created.
\<close>

lemma prepared:
  fixes s
  defines "s2 \<equiv> snd (new_AbortController (cancelPendingRequests s))"
  shows "fst (new_AbortController (cancelPendingRequests s)) = length (controllers s)"
    and "trace s2 = trace s @ (case abortController s of None \<Rightarrow> [] | Some a \<Rightarrow> [Abort a]) @
           [NewController (length (controllers s))]"
    and "controllers s2 =
           (case abortController s of None \<Rightarrow> controllers s
            | Some a \<Rightarrow> (controllers s)[a := True]) @ [False]"
    and "baseUrl s2 = baseUrl s" and "config s2 = config s" and "cache s2 = cache s"
  by (simp_all add: s2_def new_AbortController_def cancelPendingRequests_def Let_def
      split: option.splits)

lemma fetchData_network_unfold:
  "fetchData_network s cacheKey endpoint params useCache =
     (let s3 = (snd (new_AbortController (cancelPendingRequests s)))
                 \<lparr>abortController := Some (length (controllers s))\<rparr>;
          r = fetchWithRetry s3
                (URL (baseUrl s @ endpoint)
                   (map (\<lambda>key. (key, toString (get_prop params key))) (object_keys params)))
                \<lparr>signal = Some (length (controllers s))\<rparr> (maxRetries (config s))
      in case fst r of
           Inr d \<Rightarrow> (Inr d, if useCache then setCache (snd r) cacheKey d else snd r)
         | Inl error \<Rightarrow>
             (Inl error,
              if error_name error \<noteq> ''AbortError'' then console_error (snd r) error
              else snd r))"
  by (simp add: fetchData_network_def Let_def case_prod_beta prepared cong: sum.case_cong if_cong)

lemma fetchData_network_effects:
  "abortController (snd (fetchData_network s cacheKey endpoint params useCache)) =
     Some (length (controllers s)) \<and>
   controllers (snd (fetchData_network s cacheKey endpoint params useCache)) =
     (case abortController s of None \<Rightarrow> controllers s
      | Some a \<Rightarrow> (controllers s)[a := True]) @ [False] \<and>
   (\<exists>es. trace (snd (fetchData_network s cacheKey endpoint params useCache)) =
      trace s @ (case abortController s of None \<Rightarrow> [] | Some a \<Rightarrow> [Abort a]) @
      [NewController (length (controllers s)), Notify ''request-started'' None,
       Fetch (URL (baseUrl s @ endpoint)
                (map (\<lambda>key. (key, toString (get_prop params key))) (object_keys params)))
         \<lparr>signal = Some (length (controllers s))\<rparr>] @ es \<and>
      list_all request_effect es)"
proof -
  define s3 where "s3 = (snd (new_AbortController (cancelPendingRequests s)))
                 \<lparr>abortController := Some (length (controllers s))\<rparr>"
  define u where "u = URL (baseUrl s @ endpoint)
                   (map (\<lambda>key. (key, toString (get_prop params key))) (object_keys params))"
  define r where "r = fetchWithRetry s3 u \<lparr>signal = Some (length (controllers s))\<rparr>
                        (maxRetries (config s))"
  have s3: "abortController s3 = Some (length (controllers s))"
    "trace s3 = trace s @ (case abortController s of None \<Rightarrow> [] | Some a \<Rightarrow> [Abort a]) @
           [NewController (length (controllers s))]"
    "controllers s3 =
           (case abortController s of None \<Rightarrow> controllers s
            | Some a \<Rightarrow> (controllers s)[a := True]) @ [False]"
    by (simp_all add: s3_def prepared)
  from fetchWithRetry_frame_trace [of s3 u "\<lparr>signal = Some (length (controllers s))\<rparr>"
      "maxRetries (config s)", folded r_def]
  obtain es where frame: "abortController (snd r) = abortController s3"
      "controllers (snd r) = controllers s3"
    and tr: "trace (snd r) = trace s3 @
        [Notify ''request-started'' None, Fetch u \<lparr>signal = Some (length (controllers s))\<rparr>] @ es"
    and es: "list_all request_effect es"
    by blast
  have eq: "fetchData_network s cacheKey endpoint params useCache =
     (case fst r of
           Inr d \<Rightarrow> (Inr d, if useCache then setCache (snd r) cacheKey d else snd r)
         | Inl error \<Rightarrow>
             (Inl error,
              if error_name error \<noteq> ''AbortError'' then console_error (snd r) error
              else snd r))"
    unfolding fetchData_network_unfold r_def u_def s3_def by (simp add: Let_def)
  let ?t = "snd (fetchData_network s cacheKey endpoint params useCache)"
  have fields: "abortController ?t = abortController (snd r)" "controllers ?t = controllers (snd r)"
    unfolding eq
    by (simp_all add: setCache_def notifyListeners_def console_error_def split: sum.splits)
  have "\<exists>es'. trace ?t = trace (snd r) @ es' \<and> list_all request_effect es'"
    unfolding eq
    by (simp add: setCache_def notifyListeners_def console_error_def split: sum.splits)
  then obtain es' where tr': "trace ?t = trace (snd r) @ es'" and es': "list_all request_effect es'"
    by blast
  have "trace ?t = trace s @ (case abortController s of None \<Rightarrow> [] | Some a \<Rightarrow> [Abort a]) @
      [NewController (length (controllers s)), Notify ''request-started'' None,
       Fetch u \<lparr>signal = Some (length (controllers s))\<rparr>] @ (es @ es')"
    unfolding tr' tr by (simp add: s3)
  moreover have "list_all request_effect (es @ es')"
    using es es' by simp
  ultimately have "\<exists>es. trace ?t =
      trace s @ (case abortController s of None \<Rightarrow> [] | Some a \<Rightarrow> [Abort a]) @
      [NewController (length (controllers s)), Notify ''request-started'' None,
       Fetch u \<lparr>signal = Some (length (controllers s))\<rparr>] @ es \<and>
      list_all request_effect es"
    by blast
  moreover have "abortController ?t = Some (length (controllers s))"
    unfolding fields frame by (rule s3(1))
  moreover have "controllers ?t =
     (case abortController s of None \<Rightarrow> controllers s
      | Some a \<Rightarrow> (controllers s)[a := True]) @ [False]"
    unfolding fields frame by (rule s3(3))
  ultimately show ?thesis
    unfolding u_def by blast
qed

lemma prepared_cache:
  "(snd (new_AbortController (cancelPendingRequests (s\<lparr>cache := c\<rparr>))))\<lparr>abortController := a\<rparr> =
   ((snd (new_AbortController (cancelPendingRequests s)))\<lparr>abortController := a\<rparr>)\<lparr>cache := c\<rparr>"
  by (cases s)
    (simp add: new_AbortController_def cancelPendingRequests_def Let_def split: option.splits)

lemma setCache_cache:
  "(setCache (t\<lparr>cache := c\<rparr>) key d)\<lparr>cache := cache (setCache t key d)\<rparr> = setCache t key d"
  by (cases t) (simp add: setCache_def notifyListeners_def)

lemma console_error_cache:
  "(console_error (t\<lparr>cache := c\<rparr>) e)\<lparr>cache := cache (console_error t e)\<rparr> = console_error t e"
  by (cases t) (simp add: console_error_def)

lemma fetchData_network_cache:
  "fst (fetchData_network (s\<lparr>cache := c\<rparr>) key endpoint params useCache) =
     fst (fetchData_network s key endpoint params useCache) \<and>
   (snd (fetchData_network (s\<lparr>cache := c\<rparr>) key endpoint params useCache))
      \<lparr>cache := cache (snd (fetchData_network s key endpoint params useCache))\<rparr> =
     snd (fetchData_network s key endpoint params useCache)"
proof -
  define s3 where "s3 = (snd (new_AbortController (cancelPendingRequests s)))
                 \<lparr>abortController := Some (length (controllers s))\<rparr>"
  define u where "u = URL (baseUrl s @ endpoint)
                   (map (\<lambda>key. (key, toString (get_prop params key))) (object_keys params))"
  define r where "r = fetchWithRetry s3 u \<lparr>signal = Some (length (controllers s))\<rparr>
                        (maxRetries (config s))"
  have eq: "fetchData_network s key endpoint params useCache =
     (case fst r of
           Inr d \<Rightarrow> (Inr d, if useCache then setCache (snd r) key d else snd r)
         | Inl error \<Rightarrow>
             (Inl error,
              if error_name error \<noteq> ''AbortError'' then console_error (snd r) error
              else snd r))"
    unfolding fetchData_network_unfold r_def u_def s3_def by (simp add: Let_def)
  have "fetchData_network (s\<lparr>cache := c\<rparr>) key endpoint params useCache =
     (let r' = fetchWithRetry (s3\<lparr>cache := c\<rparr>) u \<lparr>signal = Some (length (controllers s))\<rparr>
                        (maxRetries (config s))
     in case fst r' of
           Inr d \<Rightarrow> (Inr d, if useCache then setCache (snd r') key d else snd r')
         | Inl error \<Rightarrow>
             (Inl error,
              if error_name error \<noteq> ''AbortError'' then console_error (snd r') error
              else snd r'))"
    unfolding fetchData_network_unfold u_def s3_def by (simp add: Let_def prepared_cache)
  then have eq_c: "fetchData_network (s\<lparr>cache := c\<rparr>) key endpoint params useCache =
     (case fst r of
           Inr d \<Rightarrow> (Inr d, if useCache then setCache ((snd r)\<lparr>cache := c\<rparr>) key d
                          else (snd r)\<lparr>cache := c\<rparr>)
         | Inl error \<Rightarrow>
             (Inl error,
              if error_name error \<noteq> ''AbortError''
              then console_error ((snd r)\<lparr>cache := c\<rparr>) error
              else (snd r)\<lparr>cache := c\<rparr>))"
    by (simp add: fetchWithRetry_cache r_def [symmetric] Let_def cong: sum.case_cong if_cong)
  show ?thesis
    unfolding eq eq_c
    by (simp add: setCache_cache console_error_cache split: sum.splits)
qed

lemma fetchData_network_cached:
  assumes "fetchData_network s key endpoint params True = (Inr d, s1)"
  shows "Map_get (cache s1) key = Some \<lparr>entry_data = d, entry_timestamp = clock s1\<rparr> \<and>
         config s1 = config s"
proof -
  define r where "r = fetchWithRetry
      ((snd (new_AbortController (cancelPendingRequests s)))
          \<lparr>abortController := Some (length (controllers s))\<rparr>)
      (URL (baseUrl s @ endpoint)
         (map (\<lambda>key. (key, toString (get_prop params key))) (object_keys params)))
      \<lparr>signal = Some (length (controllers s))\<rparr> (maxRetries (config s))"
  have cfg: "config (snd r) = config s"
    unfolding r_def by (simp add: fetchWithRetry_frame_trace prepared)
  have eq: "fetchData_network s key endpoint params True =
     (case fst r of
           Inr d \<Rightarrow> (Inr d, setCache (snd r) key d)
         | Inl error \<Rightarrow>
             (Inl error,
              if error_name error \<noteq> ''AbortError'' then console_error (snd r) error
              else snd r))"
    unfolding fetchData_network_unfold r_def by (simp add: Let_def cong: sum.case_cong)
  from assms have "fst r = Inr d \<and> s1 = setCache (snd r) key d"
    unfolding eq by (auto split: sum.splits)
  then show ?thesis
    using cfg by (simp add: setCache_def notifyListeners_def Map_get_set_same)
qed

lemma fetchData_success_cached:
  assumes "fetchData s endpoint params True = (Inr d, s1)" and "truthy d"
  shows "\<exists>e. Map_get (cache s1) (generateCacheKey endpoint params) = Some e \<and>
           entry_data e = d \<and> config s1 = config s"
proof (cases "truthy (fst (getCache s (generateCacheKey endpoint params)))")
  case True
  from getCache_truthy [OF True] obtain entry where
    entry: "Map_get (cache s) (generateCacheKey endpoint params) = Some entry"
      "isCacheValid s entry" "getCache s (generateCacheKey endpoint params) = (entry_data entry, s)"
    by blast
  with True have "truthy (entry_data entry)"
    by simp
  from fetchData_hit [OF entry(1,2) this] assms(1) entry(1) show ?thesis
    by auto
next
  case False
  then have "fetchData s endpoint params True =
      fetchData_network (snd (getCache s (generateCacheKey endpoint params)))
        (generateCacheKey endpoint params) endpoint params True"
    by (simp add: fetchData_miss)
  with assms(1) fetchData_network_cached show ?thesis
    by (fastforce simp: getCache_frame)
qed

lemma no_hit_effect: "list_all request_effect es \<Longrightarrow> Notify ''cache-hit'' None \<notin> set es"
  by (auto simp: list_all_iff)

lemma no_abort_effect: "list_all request_effect es \<Longrightarrow> Abort a \<notin> set es"
  by (auto simp: list_all_iff)

text \<open>
  Claim C5, as the code has it. When the cache holds, under the key of the request, an
  entry that has not expired and whose data is truthy, \<^verbatim>\<open>fetchData\<close> with the cache in
  use returns that data and changes nothing but the record of effects, to which it adds
  the \<^verbatim>\<open>cache-hit\<close> notification: no network call is made and \<^verbatim>\<open>requestCount\<close>
  stays as it is. Hence, after a call that returned a truthy value, the cache holds that
  value under the key, and a second call for the same endpoint and parameters at any
  time before the entry expires returns it in the same way.
\<close>

theorem fetchData_cache_hit:
  "(Map_get (cache s) (generateCacheKey endpoint params) = Some entry \<and>
      isCacheValid s entry \<and> truthy (entry_data entry) \<longrightarrow>
      fetchData s endpoint params True =
        (Inr (entry_data entry), s\<lparr>trace := trace s @ [Notify ''cache-hit'' None]\<rparr>)) \<and>
   (fetchData s endpoint params True = (Inr d, s1) \<and> truthy d \<longrightarrow>
      (\<exists>e. Map_get (cache s1) (generateCacheKey endpoint params) = Some e \<and>
           entry_data e = d \<and>
           (\<forall>now. now - entry_timestamp e < cacheExpiry (config s1) \<longrightarrow>
              fetchData (s1\<lparr>clock := now\<rparr>) endpoint params True =
                (Inr d, s1\<lparr>clock := now, trace := trace s1 @ [Notify ''cache-hit'' None]\<rparr>))))"
proof (intro conjI impI)
  assume "Map_get (cache s) (generateCacheKey endpoint params) = Some entry \<and>
      isCacheValid s entry \<and> truthy (entry_data entry)"
  then show "fetchData s endpoint params True =
        (Inr (entry_data entry), s\<lparr>trace := trace s @ [Notify ''cache-hit'' None]\<rparr>)"
    by (simp add: fetchData_hit)
next
  assume a: "fetchData s endpoint params True = (Inr d, s1) \<and> truthy d"
  from fetchData_success_cached [of s endpoint params d s1] a obtain e where
    e: "Map_get (cache s1) (generateCacheKey endpoint params) = Some e" "entry_data e = d"
    by blast
  have "fetchData (s1\<lparr>clock := now\<rparr>) endpoint params True =
      (Inr d, s1\<lparr>clock := now, trace := trace s1 @ [Notify ''cache-hit'' None]\<rparr>)"
    if "now - entry_timestamp e < cacheExpiry (config s1)" for now
  proof -
    have "Map_get (cache (s1\<lparr>clock := now\<rparr>)) (generateCacheKey endpoint params) = Some e"
      using e(1) by simp
    moreover have "isCacheValid (s1\<lparr>clock := now\<rparr>) e"
      using that by (simp add: isCacheValid_def)
    moreover have "truthy (entry_data e)"
      using a e(2) by simp
    ultimately show ?thesis
      using fetchData_hit [of "s1\<lparr>clock := now\<rparr>" endpoint params e] e(2) by simp
  qed
  with e show "\<exists>e. Map_get (cache s1) (generateCacheKey endpoint params) = Some e \<and>
           entry_data e = d \<and>
           (\<forall>now. now - entry_timestamp e < cacheExpiry (config s1) \<longrightarrow>
              fetchData (s1\<lparr>clock := now\<rparr>) endpoint params True =
                (Inr d, s1\<lparr>clock := now, trace := trace s1 @ [Notify ''cache-hit'' None]\<rparr>))"
    by blast
qed

theorem fetchData_cache_hit_witness:
  "fetchData cached_state ''/posts'' [] True =
     (Inr (JArr [JStr ''p'']),
      cached_state\<lparr>trace := trace cached_state @ [Notify ''cache-hit'' None]\<rparr>) \<and>
   fetchData ((snd (fetchData paged_manager ''/posts'' [] True))\<lparr>clock := 1000\<rparr>)
       ''/posts'' [] True =
     (Inr (JArr [JObj [(''id'', JNum 1), (''title'', JStr ''Hello'')]]),
      (snd (fetchData paged_manager ''/posts'' [] True))
        \<lparr>clock := 1000,
          trace := trace (snd (fetchData paged_manager ''/posts'' [] True)) @
                     [Notify ''cache-hit'' None]\<rparr>)"
proof -
  let ?entry = "\<lparr>entry_data = JArr [JStr ''p''], entry_timestamp = 200000\<rparr>"
  let ?d = "JArr [JObj [(''id'', JNum 1), (''title'', JStr ''Hello'')]]"
  let ?s1 = "snd (fetchData paged_manager ''/posts'' [] True)"
  have key: "generateCacheKey ''/posts'' [] = ''/posts''"
    by (simp add: generateCacheKey_def object_keys_def)
  have hit: "Map_get (cache cached_state) (generateCacheKey ''/posts'' []) = Some ?entry \<and>
      isCacheValid cached_state ?entry \<and> truthy (entry_data ?entry)"
    unfolding key
    by (simp add: cached_state_def Map_get_def isCacheValid_def new_DataManager_def
        default_config_def)
  have first: "fetchData cached_state ''/posts'' [] True =
     (Inr (entry_data ?entry),
      cached_state\<lparr>trace := trace cached_state @ [Notify ''cache-hit'' None]\<rparr>)"
    by (rule fetchData_cache_hit [where s = cached_state and endpoint = "''/posts''"
          and params = "[]" and entry = ?entry, THEN conjunct1, THEN mp, OF hit])
  have "fst (fetchData paged_manager ''/posts'' [] True) = Inr ?d"
    by code_simp
  then have fetched: "fetchData paged_manager ''/posts'' [] True = (Inr ?d, ?s1) \<and> truthy ?d"
    by (simp add: prod_eq_iff)
  have stored: "Map_get (cache ?s1) ''/posts'' = Some \<lparr>entry_data = ?d, entry_timestamp = 35\<rparr>"
    by code_simp
  have expiry: "cacheExpiry (config ?s1) = 300000"
    by code_simp
  from fetchData_cache_hit [where s = paged_manager and endpoint = "''/posts''"
        and params = "[]" and d = ?d and ?s1.0 = ?s1,
      THEN conjunct2, THEN mp, OF fetched]
  obtain e where e: "Map_get (cache ?s1) (generateCacheKey ''/posts'' []) = Some e"
    and again: "\<forall>now. now - entry_timestamp e < cacheExpiry (config ?s1) \<longrightarrow>
              fetchData (?s1\<lparr>clock := now\<rparr>) ''/posts'' [] True =
                (Inr ?d, ?s1\<lparr>clock := now, trace := trace ?s1 @ [Notify ''cache-hit'' None]\<rparr>)"
    by blast
  from e stored have "e = \<lparr>entry_data = ?d, entry_timestamp = 35\<rparr>"
    unfolding key by simp
  then have "entry_timestamp e = 35"
    by simp
  then have "1000 - entry_timestamp e < cacheExpiry (config ?s1)"
    unfolding expiry by simp
  with again have "fetchData (?s1\<lparr>clock := 1000\<rparr>) ''/posts'' [] True =
                (Inr ?d, ?s1\<lparr>clock := 1000, trace := trace ?s1 @ [Notify ''cache-hit'' None]\<rparr>)"
    by blast
  with first show ?thesis
    by simp
qed

text \<open>
  For an entry whose data is falsy the claim fails: with a valid zero stored under
  \<^verbatim>\<open>/unread\<close> the call goes to the network, counts four requests, emits no
  \<^verbatim>\<open>cache-hit\<close> and throws the error of the server.
\<close>

theorem fetchData_zero_entry_counterexample:
  "Map_get (cache cached_state) (generateCacheKey ''/unread'' []) =
     Some \<lparr>entry_data = JNum 0, entry_timestamp = 390000\<rparr> \<and>
   isCacheValid cached_state \<lparr>entry_data = JNum 0, entry_timestamp = 390000\<rparr> \<and>
   fst (fetchData cached_state ''/unread'' [] True) =
     Inl (JsError ''Error'' ''HTTP 500: Internal Server Error'') \<and>
   requestCount (snd (fetchData cached_state ''/unread'' [] True)) =
     requestCount cached_state + 4 \<and>
   netCalls (snd (fetchData cached_state ''/unread'' [] True)) = netCalls cached_state + 4 \<and>
   Notify ''cache-hit'' None \<notin> set (trace (snd (fetchData cached_state ''/unread'' [] True)))"
  by code_simp

text \<open>
  Claim C9. When the cache holds, under the key of the request, an entry that has not
  expired and whose data is \<^verbatim>\<open>null\<close>, \<^verbatim>\<open>false\<close>, \<^verbatim>\<open>0\<close> or the empty string,
  \<^verbatim>\<open>getCache\<close> returns that data, and \<^verbatim>\<open>fetchData\<close> with the cache in use takes
  the network path from the unchanged state and emits no \<^verbatim>\<open>cache-hit\<close>. It returns
  what it returns without the entry, and the two final states differ in the cache at
  most.
\<close>

theorem fetchData_falsy_entry:
  assumes "Map_get (cache s) (generateCacheKey endpoint params) = Some entry"
    and "isCacheValid s entry"
    and "entry_data entry \<in> {JNull, JBool False, JNum 0, JStr []}"
  shows "getCache s (generateCacheKey endpoint params) = (entry_data entry, s) \<and>
    fetchData s endpoint params True =
      fetchData_network s (generateCacheKey endpoint params) endpoint params True \<and>
    Notify ''cache-hit'' None \<notin>
      set (drop (length (trace s)) (trace (snd (fetchData s endpoint params True)))) \<and>
    fst (fetchData (s\<lparr>cache := Map_delete (generateCacheKey endpoint params) (cache s)\<rparr>)
           endpoint params True) =
      fst (fetchData s endpoint params True) \<and>
    (snd (fetchData (s\<lparr>cache := Map_delete (generateCacheKey endpoint params) (cache s)\<rparr>)
           endpoint params True))
       \<lparr>cache := cache (snd (fetchData s endpoint params True))\<rparr> =
      snd (fetchData s endpoint params True)"
proof -
  let ?key = "generateCacheKey endpoint params"
  let ?s' = "s\<lparr>cache := Map_delete ?key (cache s)\<rparr>"
  have got: "getCache s ?key = (entry_data entry, s)"
    by (rule getCache_valid [OF assms(1,2)])
  from assms(3) have falsy: "\<not> truthy (entry_data entry)"
    by auto
  have here: "fetchData s endpoint params True = fetchData_network s ?key endpoint params True"
    using fetchData_miss [of True s endpoint params] got falsy by simp
  have "getCache ?s' ?key = (JNull, ?s')"
    by (simp add: getCache_def Map_get_delete)
  then have there: "fetchData ?s' endpoint params True =
      fetchData_network ?s' ?key endpoint params True"
    using fetchData_miss [of True ?s' endpoint params] by simp
  from fetchData_network_effects [of s ?key endpoint params True]
  obtain es where "trace (snd (fetchData_network s ?key endpoint params True)) =
      trace s @ (case abortController s of None \<Rightarrow> [] | Some a \<Rightarrow> [Abort a]) @
      [NewController (length (controllers s)), Notify ''request-started'' None,
       Fetch (URL (baseUrl s @ endpoint)
                (map (\<lambda>key. (key, toString (get_prop params key))) (object_keys params)))
         \<lparr>signal = Some (length (controllers s))\<rparr>] @ es"
    and "list_all request_effect es"
    by blast
  then have quiet: "Notify ''cache-hit'' None \<notin>
      set (drop (length (trace s)) (trace (snd (fetchData_network s ?key endpoint params True))))"
    by (auto dest: no_hit_effect split: option.splits)
  show ?thesis
    unfolding there
    using got quiet
      fetchData_network_cache [where s = s and c = "Map_delete ?key (cache s)" and key = ?key
        and endpoint = endpoint and params = params and useCache = True]
    unfolding here by blast
qed

theorem fetchData_falsy_entry_witness:
  "getCache cached_state ''/unread'' = (JNum 0, cached_state) \<and>
   fetchData cached_state ''/unread'' [] True =
     fetchData_network cached_state ''/unread'' ''/unread'' [] True \<and>
   fst (fetchData (cached_state\<lparr>cache := Map_delete ''/unread'' (cache cached_state)\<rparr>)
          ''/unread'' [] True) =
     fst (fetchData cached_state ''/unread'' [] True)"
proof -
  let ?entry = "\<lparr>entry_data = JNum 0, entry_timestamp = 390000\<rparr>"
  have key: "generateCacheKey ''/unread'' [] = ''/unread''"
    by (simp add: generateCacheKey_def object_keys_def)
  have stored: "Map_get (cache cached_state) (generateCacheKey ''/unread'' []) = Some ?entry"
    unfolding key by (simp add: cached_state_def Map_get_def)
  have valid: "isCacheValid cached_state ?entry"
    by (simp add: isCacheValid_def cached_state_def new_DataManager_def default_config_def)
  have falsy: "entry_data ?entry \<in> {JNull, JBool False, JNum 0, JStr []}"
    by simp
  from fetchData_falsy_entry [OF stored valid falsy] show ?thesis
    unfolding key by simp
qed

text \<open>
  Claim C10. A \<^verbatim>\<open>fetchData\<close> call that returns from the cache changes only the record
  of effects, by the \<^verbatim>\<open>cache-hit\<close> notification: it aborts nothing and leaves
  \<^verbatim>\<open>abortController\<close> and every controller as they are. Every other call aborts the
  controller in \<^verbatim>\<open>abortController\<close>, if there is one, then creates the new controller,
  which becomes \<^verbatim>\<open>abortController\<close>, then issues the first network call with the
  signal of the new controller; nothing is aborted after that.
\<close>

theorem fetchData_cancels_on_miss_only:
  "(truthy (fst (getCache s (generateCacheKey endpoint params))) \<longrightarrow>
      snd (fetchData s endpoint params True) =
        s\<lparr>trace := trace s @ [Notify ''cache-hit'' None]\<rparr> \<and>
      abortController (snd (fetchData s endpoint params True)) = abortController s \<and>
      controllers (snd (fetchData s endpoint params True)) = controllers s) \<and>
   (\<not> (useCache \<and> truthy (fst (getCache s (generateCacheKey endpoint params)))) \<longrightarrow>
      abortController (snd (fetchData s endpoint params useCache)) =
        Some (length (controllers s)) \<and>
      controllers (snd (fetchData s endpoint params useCache)) =
        (case abortController s of None \<Rightarrow> controllers s
         | Some a \<Rightarrow> (controllers s)[a := True]) @ [False] \<and>
      (\<exists>es. trace (snd (fetchData s endpoint params useCache)) =
         trace s @ (case abortController s of None \<Rightarrow> [] | Some a \<Rightarrow> [Abort a]) @
         [NewController (length (controllers s)), Notify ''request-started'' None,
          Fetch (URL (baseUrl s @ endpoint)
                   (map (\<lambda>key. (key, toString (get_prop params key))) (object_keys params)))
            \<lparr>signal = Some (length (controllers s))\<rparr>] @ es \<and>
         (\<forall>a. Abort a \<notin> set es)))"
proof (intro conjI impI)
  let ?key = "generateCacheKey endpoint params"
  assume hit: "truthy (fst (getCache s ?key))"
  from getCache_truthy [OF hit] obtain entry where
    entry: "Map_get (cache s) ?key = Some entry" "isCacheValid s entry"
      "getCache s ?key = (entry_data entry, s)"
    by blast
  with hit have "truthy (entry_data entry)"
    by simp
  from fetchData_hit [OF entry(1,2) this]
  show "snd (fetchData s endpoint params True) = s\<lparr>trace := trace s @ [Notify ''cache-hit'' None]\<rparr>"
    by simp
  then show "abortController (snd (fetchData s endpoint params True)) = abortController s"
    and "controllers (snd (fetchData s endpoint params True)) = controllers s"
    by simp_all
next
  let ?key = "generateCacheKey endpoint params"
  let ?s = "if useCache then snd (getCache s ?key) else s"
  assume miss: "\<not> (useCache \<and> truthy (fst (getCache s ?key)))"
  have eq: "fetchData s endpoint params useCache =
      fetchData_network ?s ?key endpoint params useCache"
    by (rule fetchData_miss [OF miss])
  have same: "abortController ?s = abortController s" "controllers ?s = controllers s"
    "trace ?s = trace s" "baseUrl ?s = baseUrl s"
    by (simp_all add: getCache_frame)
  note effects = fetchData_network_effects [of ?s ?key endpoint params useCache,
      folded eq, unfolded same]
  from effects show "abortController (snd (fetchData s endpoint params useCache)) =
        Some (length (controllers s))"
    by blast
  from effects show "controllers (snd (fetchData s endpoint params useCache)) =
        (case abortController s of None \<Rightarrow> controllers s
         | Some a \<Rightarrow> (controllers s)[a := True]) @ [False]"
    by blast
  from effects obtain es where "trace (snd (fetchData s endpoint params useCache)) =
         trace s @ (case abortController s of None \<Rightarrow> [] | Some a \<Rightarrow> [Abort a]) @
         [NewController (length (controllers s)), Notify ''request-started'' None,
          Fetch (URL (baseUrl s @ endpoint)
                   (map (\<lambda>key. (key, toString (get_prop params key))) (object_keys params)))
            \<lparr>signal = Some (length (controllers s))\<rparr>] @ es"
     and "list_all request_effect es"
    by blast
  then show "\<exists>es. trace (snd (fetchData s endpoint params useCache)) =
         trace s @ (case abortController s of None \<Rightarrow> [] | Some a \<Rightarrow> [Abort a]) @
         [NewController (length (controllers s)), Notify ''request-started'' None,
          Fetch (URL (baseUrl s @ endpoint)
                   (map (\<lambda>key. (key, toString (get_prop params key))) (object_keys params)))
            \<lparr>signal = Some (length (controllers s))\<rparr>] @ es \<and>
         (\<forall>a. Abort a \<notin> set es)"
    using no_abort_effect by blast
qed

theorem fetchData_cancels_on_miss_only_witness:
  "snd (fetchData cached_state ''/posts'' [] True) =
     cached_state\<lparr>trace := trace cached_state @ [Notify ''cache-hit'' None]\<rparr> \<and>
   abortController (snd (fetchData busy_state ''/posts'' [] True)) = Some 0 \<and>
   abortController (snd (fetchData busy_state ''/users'' [] True)) = Some 1 \<and>
   controllers (snd (fetchData busy_state ''/users'' [] True)) = [True, False] \<and>
   take 4 (trace (snd (fetchData busy_state ''/users'' [] True))) =
     [Abort 0, NewController 1, Notify ''request-started'' None,
      Fetch (URL ''https://example.test/users'' []) \<lparr>signal = Some 1\<rparr>]"
proof -
  have posts: "generateCacheKey ''/posts'' [] = ''/posts''"
    and users: "generateCacheKey ''/users'' [] = ''/users''"
    by (simp_all add: generateCacheKey_def object_keys_def)
  have hit: "truthy (fst (getCache cached_state (generateCacheKey ''/posts'' [])))"
    unfolding posts by code_simp
  have hit': "truthy (fst (getCache busy_state (generateCacheKey ''/posts'' [])))"
    unfolding posts by code_simp
  have miss: "\<not> (True \<and> truthy (fst (getCache busy_state (generateCacheKey ''/users'' []))))"
    unfolding users by code_simp
  have busy: "abortController busy_state = Some 0" "controllers busy_state = [False]"
    "trace busy_state = []" "baseUrl busy_state = ''https://example.test''"
    by (simp_all add: busy_state_def cached_state_def new_DataManager_def)
  note on_hit = fetchData_cancels_on_miss_only [of cached_state "''/posts''" "[]",
      THEN conjunct1, THEN mp, OF hit]
  note on_hit' = fetchData_cancels_on_miss_only [of busy_state "''/posts''" "[]",
      THEN conjunct1, THEN mp, OF hit']
  note on_miss = fetchData_cancels_on_miss_only [of busy_state "''/users''" "[]" True,
      THEN conjunct2, THEN mp, OF miss, unfolded busy]
  from on_miss obtain es where "trace (snd (fetchData busy_state ''/users'' [] True)) =
      [Abort 0, NewController 1, Notify ''request-started'' None,
       Fetch (URL ''https://example.test/users'' []) \<lparr>signal = Some 1\<rparr>] @ es"
    by (auto simp: object_keys_def)
  then have "take 4 (trace (snd (fetchData busy_state ''/users'' [] True))) =
     [Abort 0, NewController 1, Notify ''request-started'' None,
      Fetch (URL ''https://example.test/users'' []) \<lparr>signal = Some 1\<rparr>]"
    by simp
  with on_hit on_hit' on_miss show ?thesis
    by (simp add: busy)
qed

end
